theory Spec2Isabelle
  imports Main "HOL-Library.AList" "HOL-Library.Sublist"
begin

section \<open>JavaScript values, strings and Maps\<close>

text \<open>
  The handlers of \<^verbatim>\<open>chat-server.js\<close> receive decoded JSON payloads. A payload field is
  a string, a boolean, \<^verbatim>\<open>null\<close>, or is missing (\<^verbatim>\<open>undefined\<close>). Numbers, arrays and
  nested objects are not represented: their conversion by \<^verbatim>\<open>String(..)\<close> needs the
  number formatter. A string is a list of code units; \<^typ>\<open>char\<close> covers the code
  units below 256.
\<close>

datatype jsval = JUndefined | JNull | JBool bool | JStr string

text \<open>\<^verbatim>\<open>String(v)\<close>, which is also what \<^verbatim>\<open>'..' + v\<close> appends.\<close>

fun js_String :: "jsval \<Rightarrow> string" where
  "js_String JUndefined = ''undefined''"
| "js_String JNull = ''null''"
| "js_String (JBool b) = (if b then ''true'' else ''false'')"
| "js_String (JStr s) = s"

text \<open>
  The white space and line terminators that \<^verbatim>\<open>trim()\<close> strips, among the code units
  below 256: TAB, LF, VT, FF, CR, SP and NBSP.
\<close>

definition is_ws :: "char \<Rightarrow> bool" where
  "is_ws c = (c \<in> set [CHR 0x09, CHR 0x0A, CHR 0x0B, CHR 0x0C, CHR 0x0D, CHR 0x20, CHR 0xA0])"

definition trim :: "string \<Rightarrow> string" where
  "trim s = rev (dropWhile is_ws (rev (dropWhile is_ws s)))"

text \<open>\<^verbatim>\<open>s.substring(a, b)\<close>: both indices are clamped to the length and swapped if needed.\<close>

definition substring :: "string \<Rightarrow> nat \<Rightarrow> nat \<Rightarrow> string" where
  "substring s a b =
     (let a' = min a (length s); b' = min b (length s);
          lo = min a' b'; hi = max a' b'
      in take (hi - lo) (drop lo s))"

text \<open>\<^verbatim>\<open>s || d\<close> on strings: the empty string is the only falsy string.\<close>

definition or_default :: "string \<Rightarrow> string \<Rightarrow> string" where
  "or_default s d = (if s = [] then d else s)"

text \<open>\<^verbatim>\<open>xs.slice(-n)\<close>: the last \<open>n\<close> elements, in order; all of them if there are fewer.\<close>

definition slice_last :: "nat \<Rightarrow> 'a list \<Rightarrow> 'a list" where
  "slice_last n xs = drop (length xs - n) xs"

text \<open>
  A JavaScript \<^verbatim>\<open>Map\<close> iterates in insertion order, \<^verbatim>\<open>set\<close> on a present key replaces
  the value where the key stands, and on a new key appends it: an association list with
  distinct keys.
\<close>

type_synonym ('k, 'v) jsmap = "('k \<times> 'v) list"

definition Map_get :: "('k, 'v) jsmap \<Rightarrow> 'k \<Rightarrow> 'v option" where
  "Map_get m k = map_of m k"

definition Map_has :: "('k, 'v) jsmap \<Rightarrow> 'k \<Rightarrow> bool" where
  "Map_has m k = (map_of m k \<noteq> None)"

definition Map_set :: "'k \<Rightarrow> 'v \<Rightarrow> ('k, 'v) jsmap \<Rightarrow> ('k, 'v) jsmap" where
  "Map_set k v m = AList.update k v m"

definition Map_delete :: "'k \<Rightarrow> ('k, 'v) jsmap \<Rightarrow> ('k, 'v) jsmap" where
  "Map_delete k m = AList.delete k m"

definition Map_values :: "('k, 'v) jsmap \<Rightarrow> 'v list" where
  "Map_values m = map snd m"

section \<open>The stores\<close>

text \<open>A history entry: \<^verbatim>\<open>{ username, text, ts }\<close>.\<close>

record message =
  msg_username :: string
  msg_text :: string
  msg_ts :: int

text \<open>An entry of \<^verbatim>\<open>clients\<close>: \<^verbatim>\<open>{ username, room }\<close>.\<close>

record client =
  c_username :: string
  c_room :: string

text \<open>An entry of \<^verbatim>\<open>rooms\<close>: \<^verbatim>\<open>{ users: Map(socketId -> username), history: [..] }\<close>.\<close>

record room =
  users :: "(string, string) jsmap"
  history :: "message list"

record state =
  rooms :: "(string, room) jsmap"
  clients :: "(string, client) jsmap"

definition init :: state where
  "init = \<lparr>rooms = [], clients = []\<rparr>"

section \<open>Calls on the transport\<close>

text \<open>The named events the server emits, with their data.\<close>

datatype outev =
    System string
  | Users "string list"
  | Joined string string "string list" "message list"
  | Left string string
  | Message message
  | Typing string
  | StopTyping
  | PrivateMessage string jsval int

text \<open>
  What a handler asks of socket.io, in the order of the source. The first argument of
  the \<open>Socket..\<close> calls is the id of the handler's own socket:
  \<^verbatim>\<open>socket.join(room)\<close>, \<^verbatim>\<open>socket.leave(room)\<close>, \<^verbatim>\<open>socket.emit(..)\<close> (to this socket
  alone), \<^verbatim>\<open>socket.to(room).emit(..)\<close> (to the room except this socket) and
  \<^verbatim>\<open>io.to(target).emit(..)\<close> (to everything in the room \<open>target\<close>, or to the socket
  whose id is \<open>target\<close>). Logging is left out.
\<close>

datatype call =
    SocketJoin string string
  | SocketLeave string string
  | SocketEmit string outev
  | SocketTo string string outev
  | IoTo string outev

section \<open>The handlers\<close>

definition empty_room :: room where
  "empty_room = \<lparr>users = [], history = []\<rparr>"

text \<open>\<^verbatim>\<open>ensureRoom(room)\<close>: the room's record and the store, with the record added if it was missing.\<close>

definition ensureRoom :: "string \<Rightarrow> (string, room) jsmap \<Rightarrow> room \<times> (string, room) jsmap" where
  "ensureRoom rm rms =
     (if \<not> Map_has rms rm
      then (empty_room, Map_set rm empty_room rms)
      else (case Map_get rms rm of Some r \<Rightarrow> (r, rms) | None \<Rightarrow> (empty_room, rms)))"

text \<open>
  The first two statements of the \<^verbatim>\<open>joinRoom\<close> handler:
  \<^verbatim>\<open>username = String(username).trim().substring(0, 32) || 'Anonymous'\<close> and
  \<^verbatim>\<open>room = String(room).trim() || 'General'\<close>.
\<close>

definition join_name :: "jsval \<Rightarrow> string" where
  "join_name username0 = or_default (substring (trim (js_String username0)) 0 32) ''Anonymous''"

definition join_room :: "jsval \<Rightarrow> string" where
  "join_room room0 = or_default (trim (js_String room0)) ''General''"

definition joinRoom :: "string \<Rightarrow> jsval \<Rightarrow> jsval \<Rightarrow> state \<Rightarrow> state \<times> call list" where
  "joinRoom sid username0 room0 s =
     (let uname = join_name username0;
          rm = join_room room0;
          cl = Map_set sid \<lparr>c_username = uname, c_room = rm\<rparr> (clients s);
          (r, rms) = ensureRoom rm (rooms s);
          r' = r\<lparr>users := Map_set sid uname (users r)\<rparr>;
          hist = slice_last 50 (history r')
      in (\<lparr>rooms = Map_set rm r' rms, clients = cl\<rparr>,
          [SocketJoin sid rm,
           SocketTo sid rm (System (uname @ '' has joined the room'')),
           IoTo rm (Users (Map_values (users r'))),
           SocketEmit sid (Joined rm uname (Map_values (users r')) hist)]))"

definition leaveRoom :: "string \<Rightarrow> state \<Rightarrow> state \<times> call list" where
  "leaveRoom sid s =
     (case Map_get (clients s) sid of
        None \<Rightarrow> (s, [])
      | Some info \<Rightarrow>
          (let uname = c_username info; rm = c_room info in
           case Map_get (rooms s) rm of
             Some r \<Rightarrow>
               (let r' = r\<lparr>users := Map_delete sid (users r)\<rparr> in
                (\<lparr>rooms = Map_set rm r' (rooms s), clients = Map_delete sid (clients s)\<rparr>,
                 [SocketLeave sid rm,
                  SocketEmit sid (Left rm uname),
                  SocketTo sid rm (System (uname @ '' has left the room'')),
                  IoTo rm (Users (Map_values (users r')))]))
           | None \<Rightarrow> (s\<lparr>clients := Map_delete sid (clients s)\<rparr>, [])))"

text \<open>\<^verbatim>\<open>r.history.push(msg); if (r.history.length > 200) r.history.shift();\<close>\<close>

definition push_limited :: "message \<Rightarrow> message list \<Rightarrow> message list" where
  "push_limited msg h = (let h' = h @ [msg] in if length h' > 200 then tl h' else h')"

text \<open>
  \<^verbatim>\<open>msg = { username, text: String(text).substring(0, 1000), ts }\<close>, where \<open>now\<close> is
  what \<^verbatim>\<open>Date.now()\<close> returns when the handler runs.
\<close>

definition chat_msg :: "client \<Rightarrow> int \<Rightarrow> jsval \<Rightarrow> message" where
  "chat_msg info now txt =
     \<lparr>msg_username = c_username info,
      msg_text = substring (js_String txt) 0 1000,
      msg_ts = now\<rparr>"

definition chatMessage :: "string \<Rightarrow> int \<Rightarrow> jsval \<Rightarrow> state \<Rightarrow> state \<times> call list" where
  "chatMessage sid now txt s =
     (case Map_get (clients s) sid of
        None \<Rightarrow> (s, [SocketEmit sid (System ''Please join a room first'')])
      | Some info \<Rightarrow>
          (let rm = c_room info;
               msg = chat_msg info now txt;
               (r, rms) = ensureRoom rm (rooms s);
               r' = r\<lparr>history := push_limited msg (history r)\<rparr>
           in (s\<lparr>rooms := Map_set rm r' rms\<rparr>, [IoTo rm (Message msg)])))"

definition typing :: "string \<Rightarrow> state \<Rightarrow> state \<times> call list" where
  "typing sid s =
     (case Map_get (clients s) sid of
        None \<Rightarrow> (s, [])
      | Some info \<Rightarrow> (s, [IoTo (c_room info) (Typing (c_username info))]))"

definition stopTyping :: "string \<Rightarrow> state \<Rightarrow> state \<times> call list" where
  "stopTyping sid s =
     (case Map_get (clients s) sid of
        None \<Rightarrow> (s, [])
      | Some info \<Rightarrow> (s, [IoTo (c_room info) StopTyping]))"

text \<open>
  The loop over \<^verbatim>\<open>r.users.entries()\<close> that stops at the first entry whose name is
  strictly equal to \<open>to\<close>; \<open>None\<close> is the \<^verbatim>\<open>null\<close> the variable starts with.
\<close>

fun find_target :: "jsval \<Rightarrow> (string, string) jsmap \<Rightarrow> string option" where
  "find_target to [] = None"
| "find_target to ((sid, uname) # rest) =
     (if JStr uname = to then Some sid else find_target to rest)"

text \<open>\<^verbatim>\<open>!targetSocketId\<close>: \<^verbatim>\<open>null\<close> and the empty string are falsy.\<close>

fun falsy_id :: "string option \<Rightarrow> bool" where
  "falsy_id None = True"
| "falsy_id (Some i) = (i = [])"

definition privateMessage :: "string \<Rightarrow> int \<Rightarrow> jsval \<Rightarrow> jsval \<Rightarrow> state \<Rightarrow> state \<times> call list" where
  "privateMessage sid now to body s =
     (case Map_get (clients s) sid of
        None \<Rightarrow> (s, [SocketEmit sid (System ''Join a room first'')])
      | Some info \<Rightarrow>
          (let from = c_username info; rm = c_room info in
           case Map_get (rooms s) rm of
             None \<Rightarrow> (s, [SocketEmit sid (System ''Room not found'')])
           | Some r \<Rightarrow>
               (let targetSocketId = find_target to (users r) in
                if falsy_id targetSocketId
                then (s, [SocketEmit sid (System (''User not found in room: '' @ js_String to))])
                else (case targetSocketId of
                        Some target \<Rightarrow>
                          (s, [IoTo target (PrivateMessage from body now),
                               SocketEmit sid (System (''Private message sent to '' @ js_String to))])
                      | None \<Rightarrow> (s, [])))))"

definition disconnect :: "string \<Rightarrow> state \<Rightarrow> state \<times> call list" where
  "disconnect sid s =
     (case Map_get (clients s) sid of
        None \<Rightarrow> (s, [])
      | Some info \<Rightarrow>
          (let uname = c_username info; rm = c_room info in
           case Map_get (rooms s) rm of
             Some r \<Rightarrow>
               (let r' = r\<lparr>users := Map_delete sid (users r)\<rparr> in
                (\<lparr>rooms = Map_set rm r' (rooms s), clients = Map_delete sid (clients s)\<rparr>,
                 [SocketTo sid rm (System (uname @ '' disconnected'')),
                  IoTo rm (Users (Map_values (users r')))]))
           | None \<Rightarrow> (s\<lparr>clients := Map_delete sid (clients s)\<rparr>, [])))"

section \<open>Event sequences\<close>

text \<open>
  An inbound event: the payload fields as decoded (\<^verbatim>\<open>joinRoom {username, room}\<close>,
  \<^verbatim>\<open>chatMessage text\<close>, \<^verbatim>\<open>privateMessage {to, message}\<close>), with the id of the socket
  it arrived on and the clock reading when its handler runs. Node runs one handler at a
  time, to its end.
\<close>

datatype inbound =
    OnJoinRoom jsval jsval
  | OnLeaveRoom
  | OnChatMessage jsval
  | OnTyping
  | OnStopTyping
  | OnPrivateMessage jsval jsval
  | OnDisconnect

type_synonym event = "string \<times> int \<times> inbound"

fun step :: "event \<Rightarrow> state \<Rightarrow> state \<times> call list" where
  "step (sid, now, OnJoinRoom u r) s = joinRoom sid u r s"
| "step (sid, now, OnLeaveRoom) s = leaveRoom sid s"
| "step (sid, now, OnChatMessage t) s = chatMessage sid now t s"
| "step (sid, now, OnTyping) s = typing sid s"
| "step (sid, now, OnStopTyping) s = stopTyping sid s"
| "step (sid, now, OnPrivateMessage to body) s = privateMessage sid now to body s"
| "step (sid, now, OnDisconnect) s = disconnect sid s"

fun run :: "state \<Rightarrow> event list \<Rightarrow> state \<times> call list" where
  "run s [] = (s, [])"
| "run s (e # es) =
     (let (s1, out1) = step e s; (s2, out2) = run s1 es in (s2, out1 @ out2))"

section \<open>Observations on a state and on a run\<close>

text \<open>The record of a room; a room that was never created has no member and no message.\<close>

definition room_of :: "state \<Rightarrow> string \<Rightarrow> room" where
  "room_of s rm = (case Map_get (rooms s) rm of None \<Rightarrow> empty_room | Some r \<Rightarrow> r)"

definition history_of :: "state \<Rightarrow> string \<Rightarrow> message list" where
  "history_of s rm = history (room_of s rm)"

definition roster :: "state \<Rightarrow> string \<Rightarrow> (string, string) jsmap" where
  "roster s rm = users (room_of s rm)"

text \<open>The sessions of the registry whose room field is \<open>rm\<close>, and their display names.\<close>

definition sessions_in :: "state \<Rightarrow> string \<Rightarrow> (string \<times> client) list" where
  "sessions_in s rm = filter (\<lambda>(sid, info). c_room info = rm) (clients s)"

definition registry_names :: "state \<Rightarrow> string \<Rightarrow> string list" where
  "registry_names s rm = map (\<lambda>(sid, info). c_username info) (sessions_in s rm)"

text \<open>The \<^verbatim>\<open>message\<close> events sent to a room in a list of calls, in order.\<close>

fun appended_to :: "string \<Rightarrow> call list \<Rightarrow> message list" where
  "appended_to rm [] = []"
| "appended_to rm (IoTo t (Message m) # cs) =
     (if t = rm then m # appended_to rm cs else appended_to rm cs)"
| "appended_to rm (c # cs) = appended_to rm cs"

text \<open>
  Whether a socket is in a socket.io room after a list of calls: its last
  \<^verbatim>\<open>socket.join(rm)\<close> or \<^verbatim>\<open>socket.leave(rm)\<close> was a join.
\<close>

definition subscribed :: "string \<Rightarrow> string \<Rightarrow> call list \<Rightarrow> bool" where
  "subscribed sid rm cs =
     foldl (\<lambda>b c. if c = SocketJoin sid rm then True
                  else if c = SocketLeave sid rm then False else b) False cs"

text \<open>
  The sockets left behind on the roster of \<open>rm\<close>. A socket is left behind when it joins
  another room while its session names \<open>rm\<close>: \<^verbatim>\<open>joinRoom\<close> overwrites the session and
  does not touch the old roster. It stops being left behind when it joins \<open>rm\<close> again.
  No other event changes the list.
\<close>

fun ghost_step :: "string \<Rightarrow> event \<Rightarrow> state \<Rightarrow> string list \<Rightarrow> string list" where
  "ghost_step rm (sid, now, OnJoinRoom u r) s g =
     (if join_room r = rm then removeAll sid g
      else (case Map_get (clients s) sid of
              None \<Rightarrow> g
            | Some info \<Rightarrow> if c_room info = rm then List.insert sid g else g))"
| "ghost_step rm (sid, now, ev) s g = g"

fun left_behind :: "string \<Rightarrow> state \<Rightarrow> event list \<Rightarrow> string list \<Rightarrow> string list" where
  "left_behind rm s [] g = g"
| "left_behind rm s (e # es) g = left_behind rm (fst (step e s)) es (ghost_step rm e s g)"

text \<open>
  A run in which no socket goes from \<open>rm\<close> to another room without leaving: every
  \<^verbatim>\<open>joinRoom\<close> from a socket whose session names \<open>rm\<close> asks for \<open>rm\<close> again.
\<close>

fun stays :: "string \<Rightarrow> event \<Rightarrow> state \<Rightarrow> bool" where
  "stays rm (sid, now, OnJoinRoom u r) s =
     (case Map_get (clients s) sid of
        None \<Rightarrow> True
      | Some info \<Rightarrow> if c_room info = rm then join_room r = rm else True)"
| "stays rm (sid, now, ev) s = True"

fun no_switch_from :: "string \<Rightarrow> state \<Rightarrow> event list \<Rightarrow> bool" where
  "no_switch_from rm s [] = True"
| "no_switch_from rm s (e # es) = (stays rm e s \<and> no_switch_from rm (fst (step e s)) es)"




section \<open>Example runs and states\<close>

text \<open>
  Socket A joins General as alice, socket B joins General as bob, alice says hi; and the
  state this run ends in.
\<close>

definition ev_chat :: "event list" where
  "ev_chat =
     [(''A'', 1, OnJoinRoom (JStr ''alice'') (JStr ''General'')),
      (''B'', 2, OnJoinRoom (JStr ''bob'') (JStr ''General'')),
      (''A'', 3, OnChatMessage (JStr ''hi''))]"

text \<open>The two joins alone.\<close>

definition ev_joins :: "event list" where
  "ev_joins =
     [(''A'', 1, OnJoinRoom (JStr ''alice'') (JStr ''General'')),
      (''B'', 2, OnJoinRoom (JStr ''bob'') (JStr ''General''))]"

definition st_chat :: state where
  "st_chat =
     \<lparr>rooms = [(''General'',
        \<lparr>users = [(''A'', ''alice''), (''B'', ''bob'')],
         history = [\<lparr>msg_username = ''alice'', msg_text = ''hi'', msg_ts = 3\<rparr>]\<rparr>)],
      clients = [(''A'', \<lparr>c_username = ''alice'', c_room = ''General''\<rparr>),
                 (''B'', \<lparr>c_username = ''bob'', c_room = ''General''\<rparr>)]\<rparr>"

text \<open>Socket A joins Lobby, then joins General without leaving; socket B then joins Lobby.\<close>

definition ev_switch :: "event list" where
  "ev_switch =
     [(''A'', 1, OnJoinRoom (JStr ''alice'') (JStr ''Lobby'')),
      (''A'', 2, OnJoinRoom (JStr ''alice'') (JStr ''General'')),
      (''B'', 3, OnJoinRoom (JStr ''bob'') (JStr ''Lobby''))]"

text \<open>Socket A joins Lobby, goes to General without leaving, and comes back to Lobby.\<close>

definition ev_return :: "event list" where
  "ev_return =
     [(''A'', 1, OnJoinRoom (JStr ''alice'') (JStr ''Lobby'')),
      (''A'', 2, OnJoinRoom (JStr ''alice'') (JStr ''General'')),
      (''A'', 3, OnJoinRoom (JStr ''alice'') (JStr ''Lobby''))]"



text \<open>A registry entry whose room has no record in the store.\<close>

definition st_orphan :: state where
  "st_orphan = \<lparr>rooms = [], clients = [(''A'', \<lparr>c_username = ''alice'', c_room = ''General''\<rparr>)]\<rparr>"

text \<open>A room whose history holds 200 messages, stamped 0 to 199.\<close>

definition st_full :: state where
  "st_full =
     \<lparr>rooms = [(''General'',
        \<lparr>users = [(''A'', ''alice'')],
         history = map (\<lambda>i. \<lparr>msg_username = ''alice'', msg_text = ''x'', msg_ts = int i\<rparr>) [0..<200]\<rparr>)],
      clients = [(''A'', \<lparr>c_username = ''alice'', c_room = ''General''\<rparr>)]\<rparr>"

section \<open>Invariants of the stores\<close>

text \<open>
  Keys are distinct, as in any \<^verbatim>\<open>Map\<close>, and every session is on the roster of the room
  it names, under its display name: both hold after every run. For a room \<open>rm\<close> and a
  list \<open>g\<close> of sockets: every entry of the roster of \<open>rm\<close> has its session or belongs
  to a socket of \<open>g\<close>, and every socket of \<open>g\<close> is on the roster of \<open>rm\<close> with no
  session that names \<open>rm\<close>.
\<close>

definition wf_keys :: "state \<Rightarrow> bool" where
  "wf_keys s = (distinct (map fst (clients s)) \<and> (\<forall>rm. distinct (map fst (roster s rm))))"

definition sessions_listed :: "state \<Rightarrow> bool" where
  "sessions_listed s =
     (\<forall>sid info. Map_get (clients s) sid = Some info \<longrightarrow>
        Map_get (roster s (c_room info)) sid = Some (c_username info))"

definition roster_backed :: "string \<Rightarrow> string list \<Rightarrow> state \<Rightarrow> bool" where
  "roster_backed rm g s =
     (\<forall>sid u. Map_get (roster s rm) sid = Some u \<longrightarrow>
        Map_get (clients s) sid = Some \<lparr>c_username = u, c_room = rm\<rparr> \<or> sid \<in> set g)"

definition ghosts_real :: "string \<Rightarrow> string list \<Rightarrow> state \<Rightarrow> bool" where
  "ghosts_real rm g s =
     (\<forall>sid. sid \<in> set g \<longrightarrow>
        Map_get (roster s rm) sid \<noteq> None \<and>
        (\<forall>info. Map_get (clients s) sid = Some info \<longrightarrow> c_room info \<noteq> rm))"

text \<open>What one event does to the registry and the rosters.\<close>

definition unchanged :: "state \<Rightarrow> state \<Rightarrow> bool" where
  "unchanged s s' = (clients s' = clients s \<and> (\<forall>rm. roster s' rm = roster s rm))"

definition joined_as :: "string \<Rightarrow> string \<Rightarrow> string \<Rightarrow> state \<Rightarrow> state \<Rightarrow> bool" where
  "joined_as sid u rm s s' =
     (clients s' = Map_set sid \<lparr>c_username = u, c_room = rm\<rparr> (clients s) \<and>
      (\<forall>rm'. roster s' rm' = (if rm' = rm then Map_set sid u (roster s rm') else roster s rm')))"

definition removed :: "string \<Rightarrow> client \<Rightarrow> state \<Rightarrow> state \<Rightarrow> bool" where
  "removed sid info s s' =
     (Map_get (clients s) sid = Some info \<and>
      clients s' = Map_delete sid (clients s) \<and>
      (\<forall>rm'. roster s' rm' =
         (if rm' = c_room info then Map_delete sid (roster s rm') else roster s rm')))"

section \<open>What each handler does to the stores\<close>

subsection \<open>Strings and Maps\<close>

lemma substring_0: "substring s 0 n = take n s"
  by (cases "n \<le> length s") (simp_all add: substring_def Let_def min_def)

lemma Map_get_set: "Map_get (Map_set k v m) k' = (if k' = k then Some v else Map_get m k')"
  by (simp add: Map_get_def Map_set_def update_conv')

lemma ensureRoom_conv:
  "ensureRoom rm rms =
     (case Map_get rms rm of None \<Rightarrow> (empty_room, Map_set rm empty_room rms) | Some r \<Rightarrow> (r, rms))"
  by (simp add: ensureRoom_def Map_has_def Map_get_def split: option.splits)

subsection \<open>chatMessage\<close>

lemma chatMessage_joined:
  assumes "Map_get (clients s) sid = Some info"
  shows "chatMessage sid now txt s =
     (s\<lparr>rooms := Map_set (c_room info)
          ((room_of s (c_room info))\<lparr>history := push_limited (chat_msg info now txt) (history_of s (c_room info))\<rparr>)
          (snd (ensureRoom (c_room info) (rooms s)))\<rparr>,
      [IoTo (c_room info) (Message (chat_msg info now txt))])"
  using assms
  by (simp add: chatMessage_def Let_def ensureRoom_conv history_of_def room_of_def split: option.splits)

lemma room_of_chatMessage:
  assumes "Map_get (clients s) sid = Some info"
  shows "room_of (fst (chatMessage sid now txt s)) rm =
     (if rm = c_room info
      then (room_of s rm)\<lparr>history := push_limited (chat_msg info now txt) (history_of s rm)\<rparr>
      else room_of s rm)"
  by (simp add: chatMessage_joined [OF assms] room_of_def Map_get_set ensureRoom_conv split: option.splits)

subsection \<open>privateMessage\<close>

lemma privateMessage_no_room:
  assumes "Map_get (clients s) sid = Some info" and "Map_get (rooms s) (c_room info) = None"
  shows "privateMessage sid now to body s = (s, [SocketEmit sid (System ''Room not found'')])"
  using assms by (simp add: privateMessage_def)

lemma privateMessage_found:
  assumes "Map_get (clients s) sid = Some info"
    and "Map_get (rooms s) (c_room info) = Some r"
    and "find_target to (users r) = Some target" and "target \<noteq> []"
  shows "privateMessage sid now to body s =
     (s, [IoTo target (PrivateMessage (c_username info) body now),
          SocketEmit sid (System (''Private message sent to '' @ js_String to))])"
  using assms by (simp add: privateMessage_def)


subsection \<open>joinRoom\<close>

lemma clients_joinRoom:
  "clients (fst (joinRoom sid u0 r0 s)) =
     Map_set sid \<lparr>c_username = join_name u0, c_room = join_room r0\<rparr> (clients s)"
  by (simp add: joinRoom_def Let_def split: prod.splits)

lemma room_of_joinRoom:
  "room_of (fst (joinRoom sid u0 r0 s)) rm =
     (if rm = join_room r0
      then (room_of s rm)\<lparr>users := Map_set sid (join_name u0) (roster s rm)\<rparr>
      else room_of s rm)"
  by (simp add: joinRoom_def Let_def roster_def
        room_of_def ensureRoom_conv Map_get_set split: prod.splits option.splits)

lemma snd_joinRoom:
  "snd (joinRoom sid u0 r0 s) =
     [SocketJoin sid (join_room r0),
      SocketTo sid (join_room r0) (System (join_name u0 @ '' has joined the room'')),
      IoTo (join_room r0) (Users (Map_values (Map_set sid (join_name u0) (roster s (join_room r0))))),
      SocketEmit sid (Joined (join_room r0) (join_name u0)
        (Map_values (Map_set sid (join_name u0) (roster s (join_room r0))))
        (slice_last 50 (history_of s (join_room r0))))]"
  by (simp add: joinRoom_def Let_def roster_def history_of_def
        room_of_def ensureRoom_conv split: prod.splits option.splits)

subsection \<open>leaveRoom and disconnect\<close>

lemma Map_delete_absent: "Map_get m k = None \<Longrightarrow> Map_delete k m = m"
  by (simp add: Map_get_def Map_delete_def map_of_eq_None_iff)

lemma Map_get_delete: "Map_get (Map_delete k m) k' = (if k' = k then None else Map_get m k')"
  by (simp add: Map_get_def Map_delete_def delete_conv')

lemma clients_leaveRoom:
  "clients (fst (leaveRoom sid s)) = Map_delete sid (clients s)"
  by (simp add: leaveRoom_def Let_def Map_delete_absent split: option.splits)

lemma room_of_leaveRoom:
  "room_of (fst (leaveRoom sid s)) rm =
     (case Map_get (clients s) sid of
        None \<Rightarrow> room_of s rm
      | Some info \<Rightarrow>
          if rm = c_room info
          then (room_of s rm)\<lparr>users := Map_delete sid (roster s rm)\<rparr>
          else room_of s rm)"
  by (simp add: leaveRoom_def Let_def roster_def room_of_def Map_get_set empty_room_def
        Map_delete_def split: option.splits)

lemma snd_leaveRoom:
  "snd (leaveRoom sid s) =
     (case Map_get (clients s) sid of
        None \<Rightarrow> []
      | Some info \<Rightarrow>
          (case Map_get (rooms s) (c_room info) of
             None \<Rightarrow> []
           | Some r \<Rightarrow>
               [SocketLeave sid (c_room info),
                SocketEmit sid (Left (c_room info) (c_username info)),
                SocketTo sid (c_room info) (System (c_username info @ '' has left the room'')),
                IoTo (c_room info) (Users (Map_values (Map_delete sid (roster s (c_room info)))))]))"
  by (simp add: leaveRoom_def Let_def roster_def room_of_def split: option.splits)

lemma fst_disconnect: "fst (disconnect sid s) = fst (leaveRoom sid s)"
  by (simp add: leaveRoom_def disconnect_def Let_def split: option.splits)

lemma snd_disconnect:
  "snd (disconnect sid s) =
     (case Map_get (clients s) sid of
        None \<Rightarrow> []
      | Some info \<Rightarrow>
          (case Map_get (rooms s) (c_room info) of
             None \<Rightarrow> []
           | Some r \<Rightarrow>
               [SocketTo sid (c_room info) (System (c_username info @ '' disconnected'')),
                IoTo (c_room info) (Users (Map_values (Map_delete sid (roster s (c_room info)))))]))"
  by (simp add: disconnect_def Let_def roster_def room_of_def split: option.splits)

subsection \<open>Handlers that leave the registry and the rosters alone\<close>

lemma fst_typing: "fst (typing sid s) = s"
  by (simp add: typing_def split: option.splits)

lemma fst_stopTyping: "fst (stopTyping sid s) = s"
  by (simp add: stopTyping_def split: option.splits)

lemma fst_privateMessage: "fst (privateMessage sid now to body s) = s"
  by (simp add: privateMessage_def Let_def split: option.splits)

lemma clients_chatMessage: "clients (fst (chatMessage sid now txt s)) = clients s"
  by (simp add: chatMessage_def Let_def split: option.splits prod.splits)

lemma room_of_chatMessage_any:
  "room_of (fst (chatMessage sid now txt s)) rm =
     (case Map_get (clients s) sid of
        None \<Rightarrow> room_of s rm
      | Some info \<Rightarrow>
          if rm = c_room info
          then (room_of s rm)\<lparr>history := push_limited (chat_msg info now txt) (history_of s rm)\<rparr>
          else room_of s rm)"
  by (simp add: room_of_chatMessage split: option.splits) (simp add: chatMessage_def)

lemma snd_chatMessage:
  "snd (chatMessage sid now txt s) =
     (case Map_get (clients s) sid of
        None \<Rightarrow> [SocketEmit sid (System ''Please join a room first'')]
      | Some info \<Rightarrow> [IoTo (c_room info) (Message (chat_msg info now txt))])"
  by (simp add: chatMessage_joined split: option.splits) (simp add: chatMessage_def)

subsection \<open>Runs\<close>

lemma run_snoc:
  "run s (es @ [e]) =
     (fst (step e (fst (run s es))), snd (run s es) @ snd (step e (fst (run s es))))"
  by (induction es arbitrary: s) (simp_all add: Let_def split: prod.splits)

section \<open>The invariants hold along a run\<close>

text \<open>An event leaves registry and rosters alone, records a join, or removes a session.\<close>

lemma leave_effect:
  "(Map_get (clients s) sid = None \<and> unchanged s (fst (leaveRoom sid s))) \<or>
   (\<exists>info. removed sid info s (fst (leaveRoom sid s)))"
proof (cases "Map_get (clients s) sid")
  case None
  then show ?thesis by (simp add: leaveRoom_def unchanged_def)
next
  case (Some info)
  then have "removed sid info s (fst (leaveRoom sid s))"
    by (simp add: removed_def clients_leaveRoom roster_def room_of_leaveRoom)
  then show ?thesis by blast
qed

lemma step_effect:
  "(\<exists>sid now u0 r0. e = (sid, now, OnJoinRoom u0 r0) \<and>
        joined_as sid (join_name u0) (join_room r0) s (fst (step e s))) \<or>
   ((\<forall>rm g. ghost_step rm e s g = g) \<and>
    (unchanged s (fst (step e s)) \<or> (\<exists>sid info. removed sid info s (fst (step e s)))))"
proof -
  obtain sid now ev where e: "e = (sid, now, ev)" by (cases e)
  show ?thesis
  proof (cases ev)
    case (OnJoinRoom u0 r0)
    have "joined_as sid (join_name u0) (join_room r0) s (fst (joinRoom sid u0 r0 s))"
      by (simp add: joined_as_def clients_joinRoom roster_def room_of_joinRoom)
    then show ?thesis unfolding e OnJoinRoom step.simps by blast
  next
    case OnLeaveRoom
    have "ghost_step rm e s g = g" for rm g by (simp add: e OnLeaveRoom)
    with leave_effect [of s sid] show ?thesis unfolding e OnLeaveRoom step.simps by blast
  next
    case (OnChatMessage t)
    have "unchanged s (fst (chatMessage sid now t s))"
      by (simp add: unchanged_def clients_chatMessage roster_def room_of_chatMessage_any
            split: option.splits)
    then show ?thesis by (simp add: e OnChatMessage)
  next
    case OnTyping
    then show ?thesis by (simp add: e fst_typing unchanged_def)
  next
    case OnStopTyping
    then show ?thesis by (simp add: e fst_stopTyping unchanged_def)
  next
    case (OnPrivateMessage to body)
    then show ?thesis by (simp add: e fst_privateMessage unchanged_def)
  next
    case OnDisconnect
    have "ghost_step rm e s g = g" for rm g by (simp add: e OnDisconnect)
    with leave_effect [of s sid] show ?thesis
      unfolding e OnDisconnect step.simps fst_disconnect by blast
  qed
qed

lemma step_cases [consumes 0, case_names Unchanged Join Remove]:
  assumes "clients (fst (step e s)) = clients s \<Longrightarrow>
           (\<And>rm. roster (fst (step e s)) rm = roster s rm) \<Longrightarrow>
           (\<And>rm g. ghost_step rm e s g = g) \<Longrightarrow> P"
    and "\<And>sid now u0 r0.
           clients (fst (step e s)) =
             Map_set sid \<lparr>c_username = join_name u0, c_room = join_room r0\<rparr> (clients s) \<Longrightarrow>
           (\<And>rm'. roster (fst (step e s)) rm' =
              (if rm' = join_room r0 then Map_set sid (join_name u0) (roster s rm')
               else roster s rm')) \<Longrightarrow>
           e = (sid, now, OnJoinRoom u0 r0) \<Longrightarrow> P"
    and "\<And>sid info.
           Map_get (clients s) sid = Some info \<Longrightarrow>
           clients (fst (step e s)) = Map_delete sid (clients s) \<Longrightarrow>
           (\<And>rm'. roster (fst (step e s)) rm' =
              (if rm' = c_room info then Map_delete sid (roster s rm') else roster s rm')) \<Longrightarrow>
           (\<And>rm g. ghost_step rm e s g = g) \<Longrightarrow> P"
  shows P
proof -
  from step_effect [of e s] consider
    (U) "unchanged s (fst (step e s))" "\<And>rm g. ghost_step rm e s g = g"
  | (J) sid now u0 r0 where "e = (sid, now, OnJoinRoom u0 r0)"
      "joined_as sid (join_name u0) (join_room r0) s (fst (step e s))"
  | (R) sid info where "removed sid info s (fst (step e s))" "\<And>rm g. ghost_step rm e s g = g"
    by blast
  then show P
  proof cases
    case U
    show P
    proof (rule assms(1))
      show "clients (fst (step e s)) = clients s" using U(1) by (simp add: unchanged_def)
      show "roster (fst (step e s)) rm = roster s rm" for rm
        using U(1) by (simp add: unchanged_def)
      show "ghost_step rm e s g = g" for rm g by (rule U(2))
    qed
  next
    case (J sid now u0 r0)
    show P
    proof (rule assms(2) [of sid u0 r0 now])
      show "clients (fst (step e s)) =
          Map_set sid \<lparr>c_username = join_name u0, c_room = join_room r0\<rparr> (clients s)"
        using J(2) by (simp add: joined_as_def)
      show "roster (fst (step e s)) rm' =
              (if rm' = join_room r0 then Map_set sid (join_name u0) (roster s rm')
               else roster s rm')" for rm'
        using J(2) by (simp add: joined_as_def)
      show "e = (sid, now, OnJoinRoom u0 r0)" by (rule J(1))
    qed
  next
    case (R sid info)
    show P
    proof (rule assms(3) [of sid info])
      show "Map_get (clients s) sid = Some info"
        using R(1) by (simp add: removed_def)
      show "clients (fst (step e s)) = Map_delete sid (clients s)"
        using R(1) by (simp add: removed_def)
      show "roster (fst (step e s)) rm' =
              (if rm' = c_room info then Map_delete sid (roster s rm') else roster s rm')" for rm'
        using R(1) by (simp add: removed_def)
      show "ghost_step rm e s g = g" for rm g by (rule R(2))
    qed
  qed
qed

lemma wf_keys_step: "wf_keys s \<Longrightarrow> wf_keys (fst (step e s))"
  by (cases rule: step_cases [of e s])
     (simp_all add: wf_keys_def Map_set_def Map_delete_def distinct_update distinct_delete)

lemma sessions_listed_step:
  assumes "sessions_listed s"
  shows "sessions_listed (fst (step e s))"
proof (cases rule: step_cases [of e s])
  case Unchanged
  with assms show ?thesis by (simp add: sessions_listed_def)
next
  case (Join sid now u0 r0)
  show ?thesis
    unfolding sessions_listed_def
  proof (intro allI impI)
    fix sid' info'
    assume new: "Map_get (clients (fst (step e s))) sid' = Some info'"
    show "Map_get (roster (fst (step e s)) (c_room info')) sid' = Some (c_username info')"
    proof (cases "sid' = sid")
      case True
      with new have "info' = \<lparr>c_username = join_name u0, c_room = join_room r0\<rparr>"
        by (simp add: Join(1) Map_get_set)
      with True show ?thesis by (simp add: Join(2) Map_get_set)
    next
      case False
      with new have "Map_get (clients s) sid' = Some info'"
        by (simp add: Join(1) Map_get_set)
      with assms have "Map_get (roster s (c_room info')) sid' = Some (c_username info')"
        by (simp add: sessions_listed_def)
      with False show ?thesis
        by (cases "c_room info' = join_room r0") (simp_all add: Join(2) Map_get_set)
    qed
  qed
next
  case (Remove sid info)
  show ?thesis
    unfolding sessions_listed_def
  proof (intro allI impI)
    fix sid' info'
    assume "Map_get (clients (fst (step e s))) sid' = Some info'"
    then have ne: "sid' \<noteq> sid" and old: "Map_get (clients s) sid' = Some info'"
      by (simp_all add: Remove(2) Map_get_delete split: if_splits)
    from assms old have "Map_get (roster s (c_room info')) sid' = Some (c_username info')"
      by (simp add: sessions_listed_def)
    with ne show "Map_get (roster (fst (step e s)) (c_room info')) sid' = Some (c_username info')"
      by (cases "c_room info' = c_room info") (simp_all add: Remove(3) Map_get_delete)
  qed
qed

lemma roster_backed_step:
  assumes "roster_backed rm g s"
  shows "roster_backed rm (ghost_step rm e s g) (fst (step e s))"
proof (cases rule: step_cases [of e s])
  case Unchanged
  with assms show ?thesis by (simp add: roster_backed_def)
next
  case (Join sid now u0 r0)
  have gs: "ghost_step rm e s g =
      (if join_room r0 = rm then removeAll sid g
       else (case Map_get (clients s) sid of
               None \<Rightarrow> g
             | Some info \<Rightarrow> if c_room info = rm then List.insert sid g else g))"
    by (simp add: Join(3))
  have keep: "set g - {sid} \<subseteq> set (ghost_step rm e s g)"
    by (auto simp: gs split: option.splits)
  show ?thesis
    unfolding roster_backed_def
  proof (intro allI impI)
    fix sid' u
    assume new: "Map_get (roster (fst (step e s)) rm) sid' = Some u"
    show "Map_get (clients (fst (step e s))) sid' = Some \<lparr>c_username = u, c_room = rm\<rparr> \<or>
          sid' \<in> set (ghost_step rm e s g)"
    proof (cases "sid' = sid")
      case same: True
      show ?thesis
      proof (cases "join_room r0 = rm")
        case True
        from new have "u = join_name u0"
          by (simp add: Join(2) True [symmetric] same Map_get_set)
        then show ?thesis by (simp add: Join(1) same True Map_get_set)
      next
        case False
        then have "rm \<noteq> join_room r0" by blast
        with new have "Map_get (roster s rm) sid = Some u" by (simp add: Join(2) same)
        with assms have "Map_get (clients s) sid = Some \<lparr>c_username = u, c_room = rm\<rparr> \<or> sid \<in> set g"
          by (simp add: roster_backed_def)
        then have "sid \<in> set (ghost_step rm e s g)"
          using False by (auto simp: gs split: option.splits)
        then show ?thesis by (simp add: same)
      qed
    next
      case other: False
      have "Map_get (roster s rm) sid' = Some u"
      proof (cases "rm = join_room r0")
        case True
        with new other show ?thesis by (simp add: Join(2) Map_get_set)
      next
        case False
        with new show ?thesis by (simp add: Join(2))
      qed
      with assms have "Map_get (clients s) sid' = Some \<lparr>c_username = u, c_room = rm\<rparr> \<or> sid' \<in> set g"
        by (simp add: roster_backed_def)
      then show ?thesis
      proof
        assume "Map_get (clients s) sid' = Some \<lparr>c_username = u, c_room = rm\<rparr>"
        with other show ?thesis by (simp add: Join(1) Map_get_set)
      next
        assume "sid' \<in> set g"
        with other keep show ?thesis by blast
      qed
    qed
  qed
next
  case (Remove sid info)
  show ?thesis
    unfolding roster_backed_def Remove(4)
  proof (intro allI impI)
    fix sid' u
    assume new: "Map_get (roster (fst (step e s)) rm) sid' = Some u"
    then have old: "Map_get (roster s rm) sid' = Some u"
      by (simp add: Remove(3) Map_get_delete split: if_splits)
    with assms have b: "Map_get (clients s) sid' = Some \<lparr>c_username = u, c_room = rm\<rparr> \<or> sid' \<in> set g"
      by (simp add: roster_backed_def)
    show "Map_get (clients (fst (step e s))) sid' = Some \<lparr>c_username = u, c_room = rm\<rparr> \<or>
          sid' \<in> set g"
    proof (cases "sid' = sid")
      case True
      with new have "rm \<noteq> c_room info"
        by (auto simp: Remove(3) Map_get_delete)
      with b True Remove(1) show ?thesis by auto
    next
      case False
      with b show ?thesis by (simp add: Remove(2) Map_get_delete)
    qed
  qed
qed

lemma ghosts_real_step:
  assumes "ghosts_real rm g s" and "sessions_listed s"
  shows "ghosts_real rm (ghost_step rm e s g) (fst (step e s))"
proof (cases rule: step_cases [of e s])
  case Unchanged
  with assms(1) show ?thesis by (simp add: ghosts_real_def)
next
  case (Join sid now u0 r0)
  have gs: "ghost_step rm e s g =
      (if join_room r0 = rm then removeAll sid g
       else (case Map_get (clients s) sid of
               None \<Rightarrow> g
             | Some info \<Rightarrow> if c_room info = rm then List.insert sid g else g))"
    by (simp add: Join(3))
  show ?thesis
    unfolding ghosts_real_def
  proof (intro allI impI)
    fix sid'
    assume mem: "sid' \<in> set (ghost_step rm e s g)"
    show "Map_get (roster (fst (step e s)) rm) sid' \<noteq> None \<and>
          (\<forall>info. Map_get (clients (fst (step e s))) sid' = Some info \<longrightarrow> c_room info \<noteq> rm)"
    proof (cases "sid' = sid")
      case same: True
      from mem have away: "join_room r0 \<noteq> rm"
        by (auto simp: gs same)
      then have away': "rm \<noteq> join_room r0" by blast
      have "Map_get (roster s rm) sid \<noteq> None"
      proof (cases "sid \<in> set g")
        case True
        with assms(1) show ?thesis by (simp add: ghosts_real_def)
      next
        case False
        with mem away obtain info where
          "Map_get (clients s) sid = Some info" "c_room info = rm"
          by (auto simp: gs same split: option.splits if_splits)
        with assms(2) show ?thesis by (auto simp: sessions_listed_def)
      qed
      with away away' show ?thesis by (simp add: same Join(1,2) Map_get_set)
    next
      case other: False
      from mem other have "sid' \<in> set g"
        by (auto simp: gs split: option.splits if_splits)
      with assms(1) have r: "Map_get (roster s rm) sid' \<noteq> None"
        and c: "\<forall>info. Map_get (clients s) sid' = Some info \<longrightarrow> c_room info \<noteq> rm"
        by (simp_all add: ghosts_real_def)
      from r other have "Map_get (roster (fst (step e s)) rm) sid' \<noteq> None"
        by (cases "rm = join_room r0") (simp_all add: Join(2) Map_get_set)
      with c other show ?thesis by (simp add: Join(1) Map_get_set)
    qed
  qed
next
  case (Remove sid info)
  show ?thesis
    unfolding ghosts_real_def Remove(4)
  proof (intro allI impI)
    fix sid'
    assume "sid' \<in> set g"
    with assms(1) have r: "Map_get (roster s rm) sid' \<noteq> None"
      and c: "\<forall>info. Map_get (clients s) sid' = Some info \<longrightarrow> c_room info \<noteq> rm"
      by (simp_all add: ghosts_real_def)
    show "Map_get (roster (fst (step e s)) rm) sid' \<noteq> None \<and>
          (\<forall>info. Map_get (clients (fst (step e s))) sid' = Some info \<longrightarrow> c_room info \<noteq> rm)"
    proof (cases "sid' = sid")
      case True
      with c Remove(1) have "c_room info \<noteq> rm" by simp
      with r True show ?thesis by (simp add: Remove(2,3) Map_get_delete)
    next
      case False
      with r have "Map_get (roster (fst (step e s)) rm) sid' \<noteq> None"
        by (cases "rm = c_room info") (simp_all add: Remove(3) Map_get_delete)
      with c False show ?thesis by (simp add: Remove(2) Map_get_delete)
    qed
  qed
qed

text \<open>
  A roster whose entries all have their session is in bijection with the sessions of its
  room; a roster with a socket left behind on it is longer.
\<close>

lemma sessions_on_roster:
  assumes "wf_keys s" and "sessions_listed s"
  shows "(\<lambda>(sid, info). (sid, c_username info)) ` set (sessions_in s rm) \<subseteq> set (roster s rm)"
proof
  fix p
  assume "p \<in> (\<lambda>(sid, info). (sid, c_username info)) ` set (sessions_in s rm)"
  then obtain sid info where pu: "p = (sid, c_username info)"
    and mem: "(sid, info) \<in> set (clients s)" and rm: "c_room info = rm"
    by (auto simp: sessions_in_def)
  from assms(1) have "distinct (map fst (clients s))" by (simp add: wf_keys_def)
  with mem have "Map_get (clients s) sid = Some info" by (simp add: Map_get_def)
  with assms(2) rm have "Map_get (roster s rm) sid = Some (c_username info)"
    by (auto simp: sessions_listed_def)
  then show "p \<in> set (roster s rm)"
    unfolding pu by (auto simp: Map_get_def dest: map_of_SomeD)
qed

lemma roster_set:
  assumes "wf_keys s" and "sessions_listed s" and "roster_backed rm [] s"
  shows "set (roster s rm) = (\<lambda>(sid, info). (sid, c_username info)) ` set (sessions_in s rm)"
proof (intro equalityI subsetI)
  fix p
  assume p: "p \<in> set (roster s rm)"
  obtain sid u where pu: "p = (sid, u)" by (cases p)
  from assms(1) have "distinct (map fst (roster s rm))" by (simp add: wf_keys_def)
  with p pu have "Map_get (roster s rm) sid = Some u" by (simp add: Map_get_def)
  with assms(3) have "Map_get (clients s) sid = Some \<lparr>c_username = u, c_room = rm\<rparr>"
    by (simp add: roster_backed_def)
  then have "(sid, \<lparr>c_username = u, c_room = rm\<rparr>) \<in> set (sessions_in s rm)"
    by (auto simp: Map_get_def sessions_in_def dest: map_of_SomeD)
  then show "p \<in> (\<lambda>(sid, info). (sid, c_username info)) ` set (sessions_in s rm)"
    unfolding pu by force
next
  fix p
  assume "p \<in> (\<lambda>(sid, info). (sid, c_username info)) ` set (sessions_in s rm)"
  with sessions_on_roster [OF assms(1,2)] show "p \<in> set (roster s rm)" by blast
qed

lemma sessions_card:
  assumes "wf_keys s"
  shows "card ((\<lambda>(sid, info). (sid, c_username info)) ` set (sessions_in s rm)) =
           length (sessions_in s rm)"
proof -
  let ?f = "\<lambda>(sid, info). (sid, c_username info)"
  from assms have "distinct (map fst (clients s))" by (simp add: wf_keys_def)
  then have dks: "distinct (map fst (sessions_in s rm))"
    by (simp add: sessions_in_def distinct_map_filter)
  then have "inj_on fst (set (sessions_in s rm))"
    by (simp add: distinct_map)
  then have inj: "inj_on ?f (set (sessions_in s rm))"
  proof (intro inj_onI)
    fix x y
    assume fst_inj: "inj_on fst (set (sessions_in s rm))"
      and x: "x \<in> set (sessions_in s rm)" and y: "y \<in> set (sessions_in s rm)"
      and eq: "?f x = ?f y"
    from eq have "fst x = fst y" by (cases x, cases y) simp
    from inj_onD [OF fst_inj this x y] show "x = y" .
  qed
  have "card (?f ` set (sessions_in s rm)) = card (set (sessions_in s rm))"
    by (rule card_image [OF inj])
  also from dks have "\<dots> = length (sessions_in s rm)"
    by (simp add: distinct_card distinct_map)
  finally show ?thesis .
qed

lemma roster_card:
  assumes "wf_keys s"
  shows "card (set (roster s rm)) = length (roster s rm)"
proof -
  from assms have "distinct (map fst (roster s rm))" by (simp add: wf_keys_def)
  then show ?thesis by (simp add: distinct_card distinct_map)
qed

lemma roster_length:
  assumes "wf_keys s" and "sessions_listed s" and "roster_backed rm [] s"
  shows "length (roster s rm) = length (sessions_in s rm)"
  using roster_card [OF assms(1), of rm] sessions_card [OF assms(1), of rm]
  by (simp add: roster_set [OF assms])

lemma roster_longer:
  assumes "wf_keys s" and "sessions_listed s" and "ghosts_real rm g s" and "g \<noteq> []"
  shows "length (sessions_in s rm) < length (roster s rm)"
proof -
  let ?f = "\<lambda>(sid, info). (sid, c_username info)"
  from assms(4) obtain sid where sid: "sid \<in> set g" by (cases g) auto
  with assms(3) obtain u where u: "Map_get (roster s rm) sid = Some u"
    and nosess: "\<forall>info. Map_get (clients s) sid = Some info \<longrightarrow> c_room info \<noteq> rm"
    by (auto simp: ghosts_real_def)
  from u have on: "(sid, u) \<in> set (roster s rm)"
    by (auto simp: Map_get_def dest: map_of_SomeD)
  have off: "(sid, u) \<notin> ?f ` set (sessions_in s rm)"
  proof
    assume "(sid, u) \<in> ?f ` set (sessions_in s rm)"
    then obtain info where mem: "(sid, info) \<in> set (clients s)" and rm: "c_room info = rm"
      by (auto simp: sessions_in_def)
    from assms(1) have "distinct (map fst (clients s))" by (simp add: wf_keys_def)
    with mem have "Map_get (clients s) sid = Some info" by (simp add: Map_get_def)
    with nosess rm show False by simp
  qed
  from sessions_on_roster [OF assms(1,2), of rm] on off
  have "?f ` set (sessions_in s rm) \<subset> set (roster s rm)" by blast
  then have "card (?f ` set (sessions_in s rm)) < card (set (roster s rm))"
    by (intro psubset_card_mono) simp_all
  then show ?thesis
    by (simp add: roster_card [OF assms(1)] sessions_card [OF assms(1)])
qed

lemma roster_names:
  assumes "wf_keys s" and "sessions_listed s" and "roster_backed rm [] s"
  shows "set (Map_values (roster s rm)) = set (registry_names s rm)"
proof -
  have "set (Map_values (roster s rm)) = snd ` set (roster s rm)"
    by (simp add: Map_values_def)
  also have "\<dots> = snd ` (\<lambda>(sid, info). (sid, c_username info)) ` set (sessions_in s rm)"
    by (simp add: roster_set [OF assms])
  also have "\<dots> = set (registry_names s rm)"
    by (force simp: registry_names_def image_iff)
  finally show ?thesis .
qed

lemma left_behind_snoc:
  "left_behind rm s (es @ [e]) g = ghost_step rm e (fst (run s es)) (left_behind rm s es g)"
  by (induction es arbitrary: s g) (simp_all add: Let_def split: prod.splits)

lemma ghost_step_stays: "stays rm e s \<Longrightarrow> set (ghost_step rm e s g) \<subseteq> set g"
proof -
  obtain sid now ev where e: "e = (sid, now, ev)" by (cases e)
  assume "stays rm e s"
  then show ?thesis
    by (cases ev) (auto simp: e split: option.splits if_splits)
qed

lemma left_behind_stays:
  "no_switch_from rm s es \<Longrightarrow> set (left_behind rm s es g) \<subseteq> set g"
proof (induction es arbitrary: s g)
  case Nil
  then show ?case by simp
next
  case (Cons e es)
  from Cons.prems have "stays rm e s" and "no_switch_from rm (fst (step e s)) es"
    by simp_all
  with Cons.IH [of "fst (step e s)" "ghost_step rm e s g"] ghost_step_stays [of rm e s g]
  show ?case by auto
qed

lemma no_switch_none_left_behind:
  "no_switch_from rm init es \<Longrightarrow> left_behind rm init es [] = []"
  using left_behind_stays [of rm init es "[]"] by simp

lemma init_invariants:
  "wf_keys init" "sessions_listed init" "roster_backed rm [] init" "ghosts_real rm [] init"
  by (simp_all add: wf_keys_def sessions_listed_def roster_backed_def ghosts_real_def init_def
        roster_def room_of_def Map_get_def empty_room_def)

lemma run_wf_keys: "wf_keys (fst (run init es))"
  by (induction es rule: rev_induct) (simp_all add: init_invariants run_snoc wf_keys_step)

lemma run_sessions_listed: "sessions_listed (fst (run init es))"
  by (induction es rule: rev_induct) (simp_all add: init_invariants run_snoc sessions_listed_step)

lemma run_roster_backed: "roster_backed rm (left_behind rm init es []) (fst (run init es))"
  by (induction es rule: rev_induct)
     (simp_all add: init_invariants run_snoc left_behind_snoc roster_backed_step)

lemma run_ghosts_real: "ghosts_real rm (left_behind rm init es []) (fst (run init es))"
  by (induction es rule: rev_induct)
     (simp_all add: init_invariants run_snoc left_behind_snoc ghosts_real_step
        run_sessions_listed)

text \<open>A \<^verbatim>\<open>users\<close> broadcast lists the roster as the handler leaves it.\<close>

lemma users_broadcast:
  assumes "IoTo rm (Users names) \<in> set (snd (step e s))"
  shows "names = Map_values (roster (fst (step e s)) rm)"
proof -
  obtain sid now ev where e: "e = (sid, now, ev)" by (cases e)
  show ?thesis
  proof (cases ev)
    case (OnJoinRoom u0 r0)
    with assms show ?thesis
      by (simp add: e snd_joinRoom roster_def room_of_joinRoom)
  next
    case OnLeaveRoom
    with assms show ?thesis
      by (auto simp: e snd_leaveRoom roster_def room_of_leaveRoom split: option.splits)
  next
    case (OnChatMessage t)
    with assms show ?thesis
      by (simp add: e snd_chatMessage split: option.splits)
  next
    case OnTyping
    with assms show ?thesis by (simp add: e typing_def split: option.splits)
  next
    case OnStopTyping
    with assms show ?thesis by (simp add: e stopTyping_def split: option.splits)
  next
    case (OnPrivateMessage to body)
    with assms show ?thesis
      by (simp add: e privateMessage_def Let_def split: option.splits if_splits)
  next
    case OnDisconnect
    with assms show ?thesis
      by (auto simp: e snd_disconnect fst_disconnect roster_def room_of_leaveRoom
            split: option.splits)
  qed
qed

section \<open>The bounded history\<close>

lemma slice_last_length: "length (slice_last n xs) = min n (length xs)"
  by (simp add: slice_last_def)

lemma slice_last_suffix: "suffix (slice_last n xs) xs"
  by (simp add: slice_last_def suffix_drop)

lemma tl_drop_1: "tl xs = drop 1 xs"
  by (cases xs) simp_all

lemma push_limited_slice:
  assumes "length h \<le> 200"
  shows "push_limited m h = slice_last 200 (h @ [m])"
proof (cases "length h = 200")
  case True
  then show ?thesis by (simp add: push_limited_def slice_last_def Let_def tl_drop_1)
next
  case False
  with assms have "length h < 200" by simp
  then show ?thesis by (simp add: push_limited_def slice_last_def Let_def)
qed

lemma push_limited_full:
  assumes "length h = 200"
  shows "push_limited m h = tl h @ [m]"
proof -
  from assms have "h \<noteq> []" by auto
  with assms show ?thesis by (simp add: push_limited_def Let_def)
qed

lemma last_push_limited: "push_limited m h \<noteq> [] \<and> last (push_limited m h) = m"
proof (cases h)
  case Nil
  then show ?thesis by (simp add: push_limited_def Let_def)
next
  case (Cons x xs)
  then show ?thesis by (simp add: push_limited_def Let_def)
qed

lemma slice_last_snoc:
  assumes "0 < n"
  shows "slice_last n (slice_last n xs @ [x]) = slice_last n (xs @ [x])"
proof (cases "length xs \<le> n")
  case True
  then show ?thesis by (simp add: slice_last_def)
next
  case False
  then have "Suc (length xs) - n = Suc (length xs - n)" by simp
  with False assms show ?thesis by (simp add: slice_last_def)
qed

lemma slice_last_slice_last:
  assumes "m \<le> n"
  shows "slice_last m (slice_last n xs) = slice_last m xs"
proof -
  have "length xs - (length xs - n) - m + (length xs - n) = length xs - m"
    using assms by simp
  then show ?thesis by (simp only: slice_last_def length_drop drop_drop)
qed

lemma appended_to_append:
  "appended_to rm (cs @ ds) = appended_to rm cs @ appended_to rm ds"
  by (induction rm cs rule: appended_to.induct) simp_all

lemma step_history:
  "(appended_to rm (snd (step e s)) = [] \<and>
      history_of (fst (step e s)) rm = history_of s rm) \<or>
   (\<exists>m. appended_to rm (snd (step e s)) = [m] \<and>
      history_of (fst (step e s)) rm = push_limited m (history_of s rm))"
proof -
  obtain sid now ev where e: "e = (sid, now, ev)" by (cases e)
  show ?thesis
  proof (cases ev)
    case (OnJoinRoom u0 r0)
    then show ?thesis
      by (simp add: e snd_joinRoom history_of_def room_of_joinRoom)
  next
    case OnLeaveRoom
    then show ?thesis
      by (simp add: e snd_leaveRoom history_of_def room_of_leaveRoom split: option.splits)
  next
    case (OnChatMessage t)
    then show ?thesis
      by (simp add: e snd_chatMessage history_of_def room_of_chatMessage_any split: option.splits)
  next
    case OnTyping
    then show ?thesis by (simp add: e typing_def split: option.splits)
  next
    case OnStopTyping
    then show ?thesis by (simp add: e stopTyping_def split: option.splits)
  next
    case (OnPrivateMessage to body)
    then show ?thesis
      by (simp add: e privateMessage_def Let_def split: option.splits)
  next
    case OnDisconnect
    then show ?thesis
      by (simp add: e snd_disconnect fst_disconnect history_of_def room_of_leaveRoom
            split: option.splits)
  qed
qed

lemma run_history:
  "length (history_of (fst (run init es)) rm) \<le> 200 \<and>
   history_of (fst (run init es)) rm = slice_last 200 (appended_to rm (snd (run init es)))"
proof (induction es rule: rev_induct)
  case Nil
  show ?case
    by (simp add: init_def history_of_def room_of_def Map_get_def empty_room_def slice_last_def)
next
  case (snoc e es)
  let ?s = "fst (run init es)"
  let ?A = "appended_to rm (snd (run init es))"
  from snoc have len: "length (history_of ?s rm) \<le> 200"
    and eq: "history_of ?s rm = slice_last 200 ?A"
    by blast+
  from step_history [of rm e ?s] show ?case
  proof (elim disjE conjE exE)
    assume "appended_to rm (snd (step e ?s)) = []"
      and "history_of (fst (step e ?s)) rm = history_of ?s rm"
    with len eq show ?thesis by (simp add: run_snoc appended_to_append)
  next
    fix m
    assume a: "appended_to rm (snd (step e ?s)) = [m]"
      and h: "history_of (fst (step e ?s)) rm = push_limited m (history_of ?s rm)"
    from h len have "history_of (fst (step e ?s)) rm = slice_last 200 (history_of ?s rm @ [m])"
      by (simp add: push_limited_slice)
    also have "\<dots> = slice_last 200 (?A @ [m])"
      by (simp add: eq slice_last_snoc)
    finally have "history_of (fst (step e ?s)) rm = slice_last 200 (?A @ [m])" .
    with a show ?thesis by (simp add: run_snoc appended_to_append slice_last_length)
  qed
qed

section \<open>Sessions and socket.io rooms\<close>

lemma subscribed_append:
  "subscribed sid rm (cs @ ds) =
     foldl (\<lambda>b c. if c = SocketJoin sid rm then True
                  else if c = SocketLeave sid rm then False else b) (subscribed sid rm cs) ds"
  by (simp add: subscribed_def)

lemma run_subscribed:
  "Map_get (clients (fst (run init es))) sid = Some info \<Longrightarrow>
   subscribed sid (c_room info) (snd (run init es))"
proof (induction es arbitrary: sid info rule: rev_induct)
  case Nil
  then show ?case by (simp add: init_def Map_get_def)
next
  case (snoc e es)
  let ?s = "fst (run init es)"
  let ?cs = "snd (run init es)"
  obtain sid0 now ev where e: "e = (sid0, now, ev)" by (cases e)
  from snoc.prems have new: "Map_get (clients (fst (step e ?s))) sid = Some info"
    by (simp add: run_snoc)
  show ?case
  proof (cases ev)
    case (OnJoinRoom u0 r0)
    show ?thesis
    proof (cases "sid = sid0")
      case True
      with new have "c_room info = join_room r0"
        by (auto simp: e OnJoinRoom clients_joinRoom Map_get_set)
      then show ?thesis
        by (simp add: run_snoc e OnJoinRoom subscribed_append snd_joinRoom True)
    next
      case False
      with new have "Map_get (clients ?s) sid = Some info"
        by (simp add: e OnJoinRoom clients_joinRoom Map_get_set)
      from snoc.IH [OF this] False show ?thesis
        by (simp add: run_snoc e OnJoinRoom subscribed_append snd_joinRoom)
    qed
  next
    case OnLeaveRoom
    from new have ne: "sid \<noteq> sid0" and old: "Map_get (clients ?s) sid = Some info"
      by (simp_all add: e OnLeaveRoom clients_leaveRoom Map_get_delete split: if_splits)
    from snoc.IH [OF old] ne show ?thesis
      by (simp add: run_snoc e OnLeaveRoom subscribed_append snd_leaveRoom split: option.splits)
  next
    case (OnChatMessage t)
    from new have "Map_get (clients ?s) sid = Some info"
      by (simp add: e OnChatMessage clients_chatMessage)
    from snoc.IH [OF this] show ?thesis
      by (simp add: run_snoc e OnChatMessage subscribed_append snd_chatMessage split: option.splits)
  next
    case OnTyping
    from new have "Map_get (clients ?s) sid = Some info"
      by (simp add: e OnTyping fst_typing)
    from snoc.IH [OF this] show ?thesis
      by (simp add: run_snoc e OnTyping subscribed_append typing_def split: option.splits)
  next
    case OnStopTyping
    from new have "Map_get (clients ?s) sid = Some info"
      by (simp add: e OnStopTyping fst_stopTyping)
    from snoc.IH [OF this] show ?thesis
      by (simp add: run_snoc e OnStopTyping subscribed_append stopTyping_def split: option.splits)
  next
    case (OnPrivateMessage to body)
    from new have "Map_get (clients ?s) sid = Some info"
      by (simp add: e OnPrivateMessage fst_privateMessage)
    from snoc.IH [OF this] show ?thesis
      by (simp add: run_snoc e OnPrivateMessage subscribed_append privateMessage_def Let_def
            split: option.splits)
  next
    case OnDisconnect
    from new have ne: "sid \<noteq> sid0" and old: "Map_get (clients ?s) sid = Some info"
      by (simp_all add: e OnDisconnect fst_disconnect clients_leaveRoom Map_get_delete
            split: if_splits)
    from snoc.IH [OF old] ne show ?thesis
      by (simp add: run_snoc e OnDisconnect subscribed_append snd_disconnect split: option.splits)
  qed
qed








section \<open>The example run\<close>

lemma update_absent: "map_of al k = None \<Longrightarrow> AList.update k v al = al @ [(k, v)]"
  by (induction al) (auto split: if_splits)

lemma update_absent_snoc:
  "map_of al k = None \<Longrightarrow> AList.update k v (al @ [(k, v0)]) = al @ [(k, v)]"
  by (induction al) (auto split: if_splits)

lemma run_ev_chat:
  "run init ev_chat =
     (st_chat,
      [SocketJoin ''A'' ''General'',
       SocketTo ''A'' ''General'' (System ''alice has joined the room''),
       IoTo ''General'' (Users [''alice'']),
       SocketEmit ''A'' (Joined ''General'' ''alice'' [''alice''] []),
       SocketJoin ''B'' ''General'',
       SocketTo ''B'' ''General'' (System ''bob has joined the room''),
       IoTo ''General'' (Users [''alice'', ''bob'']),
       SocketEmit ''B'' (Joined ''General'' ''bob'' [''alice'', ''bob''] []),
       IoTo ''General'' (Message \<lparr>msg_username = ''alice'', msg_text = ''hi'', msg_ts = 3\<rparr>)])"
  by (simp add: ev_chat_def st_chat_def init_def joinRoom_def chatMessage_def Let_def
        ensureRoom_def Map_has_def Map_get_def Map_set_def Map_values_def join_name_def
        join_room_def chat_msg_def or_default_def trim_def is_ws_def substring_def
        slice_last_def empty_room_def push_limited_def)

section \<open>Normalisation on join\<close>

lemma join_name_bounds: "join_name u0 \<noteq> [] \<and> length (join_name u0) \<le> 32"
  by (simp add: join_name_def or_default_def substring_0)

lemma join_name_string:
  "join_name (JStr u) = (if take 32 (trim u) = [] then ''Anonymous'' else take 32 (trim u))"
  by (simp add: join_name_def or_default_def substring_0)

lemma join_room_string:
  "join_room (JStr r) = (if trim r = [] then ''General'' else trim r)"
  by (simp add: join_room_def or_default_def)

lemma joinRoom_stores:
  "Map_get (clients (fst (joinRoom sid u0 r0 s))) sid =
     Some \<lparr>c_username = join_name u0, c_room = join_room r0\<rparr>"
  by (simp add: clients_joinRoom Map_get_set)

lemma join_examples:
  "join_name (JStr ''  alice  '') = ''alice''"
  "join_name (JStr ''   '') = ''Anonymous''"
  "join_name (JStr (replicate 40 CHR ''a'')) = replicate 32 CHR ''a''"
  "join_room (JStr '' Lobby '') = ''Lobby''"
  "join_room (JStr []) = ''General''"
  by (simp_all add: join_name_def join_room_def or_default_def trim_def is_ws_def substring_0)

text \<open>
  C2. A \<^verbatim>\<open>joinRoom\<close> payload with no \<open>room\<close> field: \<^verbatim>\<open>String(undefined)\<close> is the
  string \<^verbatim>\<open>undefined\<close>, which is not empty, so the default General is not taken and the
  session is stored in a room named undefined.
\<close>

theorem joinRoom_absent_room:
  "join_room JUndefined = ''undefined'' \<and>
   clients (fst (joinRoom ''A'' (JStr ''alice'') JUndefined init)) =
     [(''A'', \<lparr>c_username = ''alice'', c_room = ''undefined''\<rparr>)]"
  by (simp add: clients_joinRoom join_name_def join_room_def or_default_def trim_def is_ws_def
        substring_def Map_set_def init_def)

section \<open>Messages before joining, and leaving without a session\<close>

text \<open>
  C6. A \<^verbatim>\<open>chatMessage\<close> from a socket with no session: the only call is the notice
  "Please join a room first" to that socket, and the state is the one before.
\<close>

theorem chatMessage_unjoined:
  "Map_get (clients s) sid = None \<Longrightarrow>
   chatMessage sid now txt s = (s, [SocketEmit sid (System ''Please join a room first'')])"
  by (simp add: chatMessage_def)

theorem chatMessage_unjoined_witness:
  "Map_get (clients st_chat) ''C'' = None \<and>
   chatMessage ''C'' 4 (JStr ''x'') st_chat =
     (st_chat, [SocketEmit ''C'' (System ''Please join a room first'')])"
  using chatMessage_unjoined [of st_chat "''C''" 4 "JStr ''x''"]
  by (simp add: st_chat_def Map_get_def)

text \<open>
  C8. A \<^verbatim>\<open>leaveRoom\<close> from a socket with no session makes no call and leaves the state
  as it was; doing it again is the same as doing it once.
\<close>

theorem leaveRoom_unjoined:
  "Map_get (clients s) sid = None \<Longrightarrow>
   leaveRoom sid s = (s, []) \<and>
   leaveRoom sid (fst (leaveRoom sid s)) = leaveRoom sid s"
  by (simp add: leaveRoom_def)

theorem leaveRoom_unjoined_witness:
  "Map_get (clients st_chat) ''C'' = None \<and>
   leaveRoom ''C'' st_chat = (st_chat, []) \<and>
   leaveRoom ''C'' (fst (leaveRoom ''C'' st_chat)) = leaveRoom ''C'' st_chat"
  using leaveRoom_unjoined [of st_chat "''C''"]
  by (simp add: st_chat_def Map_get_def)

section \<open>Chat messages\<close>

lemma chat_msg_fields:
  "msg_username (chat_msg info now txt) = c_username info"
  "msg_text (chat_msg info now txt) = take 1000 (js_String txt)"
  "msg_ts (chat_msg info now txt) = now"
  by (simp_all add: chat_msg_def substring_0)

lemma history_of_chatMessage:
  assumes "Map_get (clients s) sid = Some info"
  shows "history_of (fst (chatMessage sid now txt s)) (c_room info) =
           push_limited (chat_msg info now txt) (history_of s (c_room info))"
  by (simp add: history_of_def room_of_chatMessage [OF assms])

text \<open>
  C4. A \<^verbatim>\<open>chatMessage\<close> from a socket with a session: the message is the last entry of
  the history of the session's room afterwards; its author is the session's name, its text
  the first 1000 code units of the input, its timestamp the clock reading of the handler
  (so not before the call was issued, the clock having not gone back since); and the one
  call is \<^verbatim>\<open>io.to(room).emit('message', msg)\<close>, which reaches the whole room, the
  sender too: after a run from the empty stores the sender's socket is in that socket.io
  room.
\<close>

theorem chatMessage_appends:
  assumes "Map_get (clients s) sid = Some info"
  shows "snd (chatMessage sid now txt s) = [IoTo (c_room info) (Message (chat_msg info now txt))] \<and>
         history_of (fst (chatMessage sid now txt s)) (c_room info) =
           push_limited (chat_msg info now txt) (history_of s (c_room info)) \<and>
         history_of (fst (chatMessage sid now txt s)) (c_room info) \<noteq> [] \<and>
         last (history_of (fst (chatMessage sid now txt s)) (c_room info)) = chat_msg info now txt \<and>
         msg_username (chat_msg info now txt) = c_username info \<and>
         msg_text (chat_msg info now txt) = take 1000 (js_String txt) \<and>
         (\<forall>t. txt = JStr t \<longrightarrow> msg_text (chat_msg info now txt) = take 1000 t) \<and>
         msg_ts (chat_msg info now txt) = now \<and>
         (issued \<le> now \<longrightarrow> issued \<le> msg_ts (chat_msg info now txt)) \<and>
         (\<forall>es. s = fst (run init es) \<longrightarrow> subscribed sid (c_room info) (snd (run init es)))"
proof -
  have "snd (chatMessage sid now txt s) = [IoTo (c_room info) (Message (chat_msg info now txt))]"
    by (simp add: chatMessage_joined [OF assms])
  moreover have "history_of (fst (chatMessage sid now txt s)) (c_room info) =
      push_limited (chat_msg info now txt) (history_of s (c_room info))"
    by (rule history_of_chatMessage [OF assms])
  moreover have "history_of (fst (chatMessage sid now txt s)) (c_room info) \<noteq> []"
    and "last (history_of (fst (chatMessage sid now txt s)) (c_room info)) = chat_msg info now txt"
    by (simp_all add: history_of_chatMessage [OF assms] last_push_limited)
  moreover have "\<forall>t. txt = JStr t \<longrightarrow> msg_text (chat_msg info now txt) = take 1000 t"
    by (simp add: chat_msg_fields)
  moreover have "subscribed sid (c_room info) (snd (run init es))" if "s = fst (run init es)" for es
    using assms that by (simp add: run_subscribed)
  ultimately show ?thesis by (simp add: chat_msg_fields)
qed

theorem chatMessage_appends_witness:
  "Map_get (clients st_chat) ''B'' = Some \<lparr>c_username = ''bob'', c_room = ''General''\<rparr> \<and>
   snd (chatMessage ''B'' 7 (JStr ''hello'') st_chat) =
     [IoTo ''General'' (Message \<lparr>msg_username = ''bob'', msg_text = ''hello'', msg_ts = 7\<rparr>)] \<and>
   history_of (fst (chatMessage ''B'' 7 (JStr ''hello'') st_chat)) ''General'' =
     [\<lparr>msg_username = ''alice'', msg_text = ''hi'', msg_ts = 3\<rparr>,
      \<lparr>msg_username = ''bob'', msg_text = ''hello'', msg_ts = 7\<rparr>] \<and>
   (5::int) \<le> 7 \<and>
   st_chat = fst (run init ev_chat) \<and>
   subscribed ''B'' ''General'' (snd (run init ev_chat))"
  using chatMessage_appends [of st_chat "''B''" "\<lparr>c_username = ''bob'', c_room = ''General''\<rparr>"
      7 "JStr ''hello''" 5]
  by (simp add: run_ev_chat)
     (simp add: st_chat_def Map_get_def chat_msg_def substring_def history_of_def room_of_def
        push_limited_def subscribed_def)

text \<open>
  C9. With a session, \<^verbatim>\<open>chatMessage\<close> makes one call, the \<^verbatim>\<open>message\<close> broadcast, and so
  never the notice "Room not found". If the store has no record for the session's room,
  the handler adds one at the end of the store, with no member and the new message as its
  only history entry, whereas \<^verbatim>\<open>privateMessage\<close> in the same state only sends the notice
  "Room not found" to the sender and leaves the state as it was.
\<close>

theorem chatMessage_creates_room:
  assumes "Map_get (clients s) sid = Some info"
  shows "snd (chatMessage sid now txt s) = [IoTo (c_room info) (Message (chat_msg info now txt))] \<and>
         (Map_get (rooms s) (c_room info) = None \<longrightarrow>
            fst (chatMessage sid now txt s) =
              s\<lparr>rooms := rooms s @ [(c_room info, \<lparr>users = [], history = [chat_msg info now txt]\<rparr>)]\<rparr> \<and>
            privateMessage sid now' to body s = (s, [SocketEmit sid (System ''Room not found'')]))"
proof -
  have "snd (chatMessage sid now txt s) = [IoTo (c_room info) (Message (chat_msg info now txt))]"
    by (simp add: chatMessage_joined [OF assms])
  moreover have "fst (chatMessage sid now txt s) =
      s\<lparr>rooms := rooms s @ [(c_room info, \<lparr>users = [], history = [chat_msg info now txt]\<rparr>)]\<rparr>"
    if "Map_get (rooms s) (c_room info) = None"
    using that assms
    by (simp add: chatMessage_def Let_def ensureRoom_conv empty_room_def push_limited_def
          Map_set_def Map_get_def update_absent update_absent_snoc)
  moreover have "privateMessage sid now' to body s = (s, [SocketEmit sid (System ''Room not found'')])"
    if "Map_get (rooms s) (c_room info) = None"
    using privateMessage_no_room [OF assms that] .
  ultimately show ?thesis by blast
qed

theorem chatMessage_creates_room_witness:
  "Map_get (clients st_orphan) ''A'' = Some \<lparr>c_username = ''alice'', c_room = ''General''\<rparr> \<and>
   Map_get (rooms st_orphan) ''General'' = None \<and>
   chatMessage ''A'' 9 (JStr ''hi'') st_orphan =
     (st_orphan\<lparr>rooms := [(''General'',
        \<lparr>users = [], history = [\<lparr>msg_username = ''alice'', msg_text = ''hi'', msg_ts = 9\<rparr>]\<rparr>)]\<rparr>,
      [IoTo ''General'' (Message \<lparr>msg_username = ''alice'', msg_text = ''hi'', msg_ts = 9\<rparr>)]) \<and>
   privateMessage ''A'' 9 (JStr ''bob'') (JStr ''secret'') st_orphan =
     (st_orphan, [SocketEmit ''A'' (System ''Room not found'')])"
  using chatMessage_creates_room [of st_orphan "''A''" "\<lparr>c_username = ''alice'', c_room = ''General''\<rparr>"
      9 "JStr ''hi''" 9 "JStr ''bob''" "JStr ''secret''"]
  by (simp add: st_orphan_def Map_get_def chat_msg_def substring_def prod_eq_iff)

section \<open>Private messages\<close>




lemma find_target_duplicate_example:
  "find_target (JStr ''bob'') [(''A'', ''alice''), (''B'', ''bob''), (''C'', ''bob'')] = Some ''B''"
  by simp

text \<open>
  C10. A delivered private message carries the body it was given, whatever its length,
  and \<^verbatim>\<open>privateMessage\<close> stores nothing; \<^verbatim>\<open>chatMessage\<close> on the same input keeps the
  first 1000 code units, in the message it broadcasts and in the entry it appends to the
  room's history, which are the same message.
\<close>

theorem privateMessage_body_unmodified:
  assumes "Map_get (clients s) sid = Some info"
    and "Map_get (rooms s) (c_room info) = Some r"
    and "find_target to (users r) = Some target" and "target \<noteq> []"
  shows "privateMessage sid now to body s =
           (s, [IoTo target (PrivateMessage (c_username info) body now),
                SocketEmit sid (System (''Private message sent to '' @ js_String to))]) \<and>
         snd (chatMessage sid now body s) =
           [IoTo (c_room info)
              (Message \<lparr>msg_username = c_username info,
                        msg_text = take 1000 (js_String body),
                        msg_ts = now\<rparr>)] \<and>
         history_of (fst (chatMessage sid now body s)) (c_room info) =
           push_limited
             \<lparr>msg_username = c_username info,
              msg_text = take 1000 (js_String body),
              msg_ts = now\<rparr>
             (history_of s (c_room info)) \<and>
         history_of (fst (chatMessage sid now body s)) (c_room info) \<noteq> [] \<and>
         last (history_of (fst (chatMessage sid now body s)) (c_room info)) =
           \<lparr>msg_username = c_username info,
            msg_text = take 1000 (js_String body),
            msg_ts = now\<rparr>"
proof -
  have msg: "chat_msg info now body =
      \<lparr>msg_username = c_username info, msg_text = take 1000 (js_String body), msg_ts = now\<rparr>"
    by (simp add: chat_msg_def substring_0)
  have "history_of (fst (chatMessage sid now body s)) (c_room info) \<noteq> []"
    and "last (history_of (fst (chatMessage sid now body s)) (c_room info)) = chat_msg info now body"
    by (simp_all add: history_of_chatMessage [OF assms(1)] last_push_limited)
  with history_of_chatMessage [OF assms(1), of now body] show ?thesis
    by (simp add: privateMessage_found [OF assms] chatMessage_joined [OF assms(1)] msg)
qed

theorem privateMessage_body_unmodified_witness:
  "Map_get (clients st_chat) ''A'' = Some \<lparr>c_username = ''alice'', c_room = ''General''\<rparr> \<and>
   find_target (JStr ''bob'') (roster st_chat ''General'') = Some ''B'' \<and>
   privateMessage ''A'' 4 (JStr ''bob'') (JStr (replicate 1001 CHR ''a'')) st_chat =
     (st_chat,
      [IoTo ''B'' (PrivateMessage ''alice'' (JStr (replicate 1001 CHR ''a'')) 4),
       SocketEmit ''A'' (System ''Private message sent to bob'')]) \<and>
   snd (chatMessage ''A'' 4 (JStr (replicate 1001 CHR ''a'')) st_chat) =
     [IoTo ''General''
        (Message \<lparr>msg_username = ''alice'', msg_text = replicate 1000 CHR ''a'', msg_ts = 4\<rparr>)] \<and>
   history_of (fst (chatMessage ''A'' 4 (JStr (replicate 1001 CHR ''a'')) st_chat)) ''General'' =
     [\<lparr>msg_username = ''alice'', msg_text = ''hi'', msg_ts = 3\<rparr>,
      \<lparr>msg_username = ''alice'', msg_text = replicate 1000 CHR ''a'', msg_ts = 4\<rparr>]"
  using privateMessage_body_unmodified [of st_chat "''A''"
      "\<lparr>c_username = ''alice'', c_room = ''General''\<rparr>"
      "\<lparr>users = [(''A'', ''alice''), (''B'', ''bob'')],
        history = [\<lparr>msg_username = ''alice'', msg_text = ''hi'', msg_ts = 3\<rparr>]\<rparr>"
      "JStr ''bob''" "''B''" 4 "JStr (replicate 1001 CHR ''a'')"]
  by (simp add: st_chat_def Map_get_def roster_def room_of_def history_of_def push_limited_def)

section \<open>History: retention and replay\<close>

text \<open>
  C3. Appending to a history of 200 entries drops the oldest entry and nothing else; and
  after any run from the empty stores the history of a room has at most 200 entries and
  is the last 200 of the messages sent to the room, in the order they were sent.
\<close>

theorem history_retention:
  "(Map_get (clients s) sid = Some info \<and> length (history_of s (c_room info)) = 200 \<longrightarrow>
      history_of (fst (chatMessage sid now txt s)) (c_room info) =
        tl (history_of s (c_room info)) @ [chat_msg info now txt]) \<and>
   length (history_of (fst (run init es)) rm) \<le> 200 \<and>
   history_of (fst (run init es)) rm = slice_last 200 (appended_to rm (snd (run init es)))"
proof -
  have "history_of (fst (chatMessage sid now txt s)) (c_room info) =
      tl (history_of s (c_room info)) @ [chat_msg info now txt]"
    if "Map_get (clients s) sid = Some info" and "length (history_of s (c_room info)) = 200"
    using that by (simp add: history_of_chatMessage push_limited_full)
  with run_history [of es rm] show ?thesis by blast
qed

theorem history_retention_witness:
  "Map_get (clients st_full) ''A'' = Some \<lparr>c_username = ''alice'', c_room = ''General''\<rparr> \<and>
   length (history_of st_full ''General'') = 200 \<and>
   history_of (fst (chatMessage ''A'' 200 (JStr ''y'') st_full)) ''General'' =
     map (\<lambda>i. \<lparr>msg_username = ''alice'', msg_text = ''x'', msg_ts = int i\<rparr>) [1..<200] @
     [\<lparr>msg_username = ''alice'', msg_text = ''y'', msg_ts = 200\<rparr>] \<and>
   history_of (fst (run init ev_chat)) ''General'' =
     [\<lparr>msg_username = ''alice'', msg_text = ''hi'', msg_ts = 3\<rparr>]"
  using history_retention [of st_full "''A''" "\<lparr>c_username = ''alice'', c_room = ''General''\<rparr>"
      200 "JStr ''y''" ev_chat "''General''"]
  by (simp add: run_ev_chat)
     (simp add: st_full_def st_chat_def Map_get_def history_of_def room_of_def chat_msg_def
        substring_def map_tl [symmetric] slice_last_def)

text \<open>
  C7. The \<^verbatim>\<open>joined\<close> event that \<^verbatim>\<open>joinRoom\<close> sends to the joiner carries the last 50
  entries of the room's history, which the join does not change: at most 50 of them, a
  suffix of the history and so in its order; after a run from the empty stores they are
  the last 50 messages sent to the room.
\<close>

theorem joinRoom_history:
  "\<exists>names hist.
     snd (joinRoom sid u0 r0 s) =
       [SocketJoin sid (join_room r0),
        SocketTo sid (join_room r0) (System (join_name u0 @ '' has joined the room'')),
        IoTo (join_room r0) (Users names),
        SocketEmit sid (Joined (join_room r0) (join_name u0) names hist)] \<and>
     hist = slice_last 50 (history_of s (join_room r0)) \<and>
     history_of (fst (joinRoom sid u0 r0 s)) (join_room r0) = history_of s (join_room r0) \<and>
     length hist \<le> 50 \<and>
     length hist = min 50 (length (history_of s (join_room r0))) \<and>
     suffix hist (history_of s (join_room r0)) \<and>
     (\<forall>es. s = fst (run init es) \<longrightarrow>
        hist = slice_last 50 (appended_to (join_room r0) (snd (run init es))))"
proof -
  let ?rm = "join_room r0"
  let ?hist = "slice_last 50 (history_of s ?rm)"
  have "history_of (fst (joinRoom sid u0 r0 s)) ?rm = history_of s ?rm"
    by (simp add: history_of_def room_of_joinRoom)
  moreover have "?hist = slice_last 50 (appended_to ?rm (snd (run init es)))"
    if "s = fst (run init es)" for es
  proof -
    from that run_history [of es ?rm]
    have "history_of s ?rm = slice_last 200 (appended_to ?rm (snd (run init es)))"
      by simp
    then show ?thesis by (simp add: slice_last_slice_last)
  qed
  moreover have "length ?hist \<le> 50" and "length ?hist = min 50 (length (history_of s ?rm))"
    by (simp_all add: slice_last_length)
  moreover note slice_last_suffix [of 50 "history_of s ?rm"] snd_joinRoom [of sid u0 r0 s]
  ultimately show ?thesis by blast
qed

theorem joinRoom_history_witness:
  "st_chat = fst (run init ev_chat) \<and>
   snd (joinRoom ''C'' (JStr ''carol'') (JStr ''General'') st_chat) =
     [SocketJoin ''C'' ''General'',
      SocketTo ''C'' ''General'' (System ''carol has joined the room''),
      IoTo ''General'' (Users [''alice'', ''bob'', ''carol'']),
      SocketEmit ''C'' (Joined ''General'' ''carol'' [''alice'', ''bob'', ''carol'']
        [\<lparr>msg_username = ''alice'', msg_text = ''hi'', msg_ts = 3\<rparr>])] \<and>
   slice_last 50 (appended_to ''General'' (snd (run init ev_chat))) =
     [\<lparr>msg_username = ''alice'', msg_text = ''hi'', msg_ts = 3\<rparr>]"
  using joinRoom_history [of "''C''" "JStr ''carol''" "JStr ''General''" st_chat]
  by (simp add: run_ev_chat)
     (simp add: st_chat_def joinRoom_def Let_def ensureRoom_def Map_has_def Map_get_def
        Map_set_def Map_values_def join_name_def join_room_def or_default_def trim_def
        is_ws_def substring_def slice_last_def)

lemma replay_last_50_example:
  "slice_last 50 (history_of st_full ''General'') =
     map (\<lambda>i. \<lparr>msg_username = ''alice'', msg_text = ''x'', msg_ts = int i\<rparr>) [150..<200]"
  by (simp add: st_full_def history_of_def room_of_def Map_get_def slice_last_def drop_map)

section \<open>Rosters and the registry\<close>

text \<open>
  C1, as stated, fails. Socket A joins Lobby and then General without leaving: the
  handler overwrites A's session and never removes A from Lobby's roster. When B then
  joins Lobby, Lobby's roster has two entries while one session names Lobby, and the
  roster broadcast to Lobby lists alice, whom the registry places in General.
\<close>

theorem roster_drift_counterexample:
  "length (roster (fst (run init ev_switch)) ''Lobby'') \<noteq>
     length (sessions_in (fst (run init ev_switch)) ''Lobby'') \<and>
   IoTo ''Lobby'' (Users [''alice'', ''bob'']) \<in> set (snd (run init ev_switch)) \<and>
   set [''alice'', ''bob''] \<noteq> set (registry_names (fst (run init ev_switch)) ''Lobby'')"
  by (simp add: ev_switch_def init_def joinRoom_def Let_def ensureRoom_def Map_has_def
        Map_get_def Map_set_def Map_values_def join_name_def join_room_def or_default_def
        trim_def is_ws_def substring_def slice_last_def empty_room_def roster_def room_of_def
        sessions_in_def registry_names_def)

text \<open>
  C1, amended. After a run from the empty stores, the roster of a room has as many
  entries as the registry has sessions naming that room exactly when no socket is left
  behind on it, that is, when every socket that joined another room while its session
  named this one has since joined this one again; that is so, in particular, when no
  socket ever went from this room to another without leaving. Then the names on the roster are the display
  names of those sessions, and a roster broadcast to the room by the last event of the
  run lists exactly those names. With a socket left behind, the roster is longer than the
  sessions are many.
\<close>

theorem roster_consistent:
  "(left_behind rm init es [] = [] \<longrightarrow>
      length (roster (fst (run init es)) rm) = length (sessions_in (fst (run init es)) rm) \<and>
      set (Map_values (roster (fst (run init es)) rm)) =
        set (registry_names (fst (run init es)) rm) \<and>
      (\<forall>es0 e names. es = es0 @ [e] \<and>
           IoTo rm (Users names) \<in> set (snd (step e (fst (run init es0)))) \<longrightarrow>
         set names = set (registry_names (fst (run init es)) rm))) \<and>
   (left_behind rm init es [] \<noteq> [] \<longrightarrow>
      length (sessions_in (fst (run init es)) rm) < length (roster (fst (run init es)) rm)) \<and>
   (no_switch_from rm init es \<longrightarrow> left_behind rm init es [] = [])"
proof (intro conjI impI)
  let ?s = "fst (run init es)"
  assume none: "left_behind rm init es [] = []"
  from run_roster_backed [of rm es] none have backed: "roster_backed rm [] ?s" by simp
  note inv = run_wf_keys [of es] run_sessions_listed [of es] backed
  show "length (roster ?s rm) = length (sessions_in ?s rm)"
    by (rule roster_length [OF inv])
  show "set (Map_values (roster ?s rm)) = set (registry_names ?s rm)"
    by (rule roster_names [OF inv])
  show "\<forall>es0 e names. es = es0 @ [e] \<and>
           IoTo rm (Users names) \<in> set (snd (step e (fst (run init es0)))) \<longrightarrow>
         set names = set (registry_names ?s rm)"
  proof (intro allI impI, elim conjE)
    fix es0 e names
    assume es: "es = es0 @ [e]"
      and call: "IoTo rm (Users names) \<in> set (snd (step e (fst (run init es0))))"
    from es have "?s = fst (step e (fst (run init es0)))" by (simp add: run_snoc)
    with users_broadcast [OF call] have "names = Map_values (roster ?s rm)" by simp
    then show "set names = set (registry_names ?s rm)" by (simp add: roster_names [OF inv])
  qed
next
  assume "left_behind rm init es [] \<noteq> []"
  from roster_longer [OF run_wf_keys run_sessions_listed run_ghosts_real this]
  show "length (sessions_in (fst (run init es)) rm) < length (roster (fst (run init es)) rm)" .
next
  assume "no_switch_from rm init es"
  then show "left_behind rm init es [] = []" by (rule no_switch_none_left_behind)
qed

theorem roster_consistent_witness:
  "left_behind ''Lobby'' init ev_return [] = [] \<and>
   roster (fst (run init ev_return)) ''Lobby'' = [(''A'', ''alice'')] \<and>
   length (sessions_in (fst (run init ev_return)) ''Lobby'') = 1 \<and>
   IoTo ''Lobby'' (Users [''alice'']) \<in>
     set (snd (step (''A'', 3, OnJoinRoom (JStr ''alice'') (JStr ''Lobby''))
       (fst (run init [(''A'', 1, OnJoinRoom (JStr ''alice'') (JStr ''Lobby'')),
                       (''A'', 2, OnJoinRoom (JStr ''alice'') (JStr ''General''))])))) \<and>
   set (registry_names (fst (run init ev_return)) ''Lobby'') = {''alice''} \<and>
   no_switch_from ''General'' init ev_switch \<and>
   left_behind ''General'' init ev_switch [] = [] \<and>
   length (roster (fst (run init ev_switch)) ''General'') =
     length (sessions_in (fst (run init ev_switch)) ''General'') \<and>
   left_behind ''Lobby'' init ev_switch [] = [''A''] \<and>
   length (sessions_in (fst (run init ev_switch)) ''Lobby'') <
     length (roster (fst (run init ev_switch)) ''Lobby'')"
proof -
  note defs = init_def joinRoom_def Let_def ensureRoom_def Map_has_def Map_get_def Map_set_def
    Map_values_def join_name_def join_room_def or_default_def trim_def is_ws_def substring_def
    slice_last_def empty_room_def roster_def room_of_def sessions_in_def registry_names_def
  have ret: "left_behind ''Lobby'' init ev_return [] = []"
    by (simp add: ev_return_def defs)
  have ro: "roster (fst (run init ev_return)) ''Lobby'' = [(''A'', ''alice'')]"
    by (simp add: ev_return_def defs)
  have bc: "IoTo ''Lobby'' (Users [''alice'']) \<in>
     set (snd (step (''A'', 3, OnJoinRoom (JStr ''alice'') (JStr ''Lobby''))
       (fst (run init [(''A'', 1, OnJoinRoom (JStr ''alice'') (JStr ''Lobby'')),
                       (''A'', 2, OnJoinRoom (JStr ''alice'') (JStr ''General''))]))))"
    by (simp add: defs)
  have parts: "ev_return =
      [(''A'', 1, OnJoinRoom (JStr ''alice'') (JStr ''Lobby'')),
       (''A'', 2, OnJoinRoom (JStr ''alice'') (JStr ''General''))] @
      [(''A'', 3, OnJoinRoom (JStr ''alice'') (JStr ''Lobby''))]"
    by (simp add: ev_return_def)
  from roster_consistent [of "''Lobby''" ev_return] ret
  have len: "length (roster (fst (run init ev_return)) ''Lobby'') =
        length (sessions_in (fst (run init ev_return)) ''Lobby'')"
    and names: "\<forall>es0 e names. ev_return = es0 @ [e] \<and>
           IoTo ''Lobby'' (Users names) \<in> set (snd (step e (fst (run init es0)))) \<longrightarrow>
         set names = set (registry_names (fst (run init ev_return)) ''Lobby'')"
    by blast+
  from len ro have se: "length (sessions_in (fst (run init ev_return)) ''Lobby'') = 1"
    by simp
  from names parts bc
  have "set [''alice''] = set (registry_names (fst (run init ev_return)) ''Lobby'')"
    by blast
  then have rn: "set (registry_names (fst (run init ev_return)) ''Lobby'') = {''alice''}"
    by simp
  have stay: "no_switch_from ''General'' init ev_switch"
    by (simp add: ev_switch_def defs)
  with roster_consistent [of "''General''" ev_switch]
  have none: "left_behind ''General'' init ev_switch [] = []"
    by blast
  with roster_consistent [of "''General''" ev_switch]
  have gen: "length (roster (fst (run init ev_switch)) ''General'') =
        length (sessions_in (fst (run init ev_switch)) ''General'')"
    by blast
  have ghost: "left_behind ''Lobby'' init ev_switch [] = [''A'']"
    by (simp add: ev_switch_def defs)
  with roster_consistent [of "''Lobby''" ev_switch]
  have lob: "length (sessions_in (fst (run init ev_switch)) ''Lobby'') <
        length (roster (fst (run init ev_switch)) ''Lobby'')"
    by simp
  from ret ro se bc rn stay none gen ghost lob show ?thesis by blast
qed

end
